theory Spec2Isabelle
  imports Main
begin

section \<open>Paths\<close>

text \<open>
  Paths, entry names and file contents are strings, as in \<^verbatim>\<open>ooxml-viewer.ts\<close>.
  The functions of Node's \<^verbatim>\<open>path\<close> module are given in their POSIX form for paths
  in normal form (no empty, \<^verbatim>\<open>.\<close> or \<^verbatim>\<open>..\<close> segment, no trailing slash): there
  \<^verbatim>\<open>join\<close> is concatenation with a slash, and \<^verbatim>\<open>dirname\<close>, \<^verbatim>\<open>basename\<close> cut at the
  last slash.
\<close>

type_synonym path = string
type_synonym bytes = string

definition cacheFolderName :: string where
  "cacheFolderName = ''.53d3a0ba-37e3-41cf-a068-b10b392cf8ca''"

text \<open>\<^verbatim>\<open>s.split(d)\<close> for a separator of one character.\<close>

fun splitc :: "char \<Rightarrow> string \<Rightarrow> string list" where
  "splitc d [] = [[]]"
| "splitc d (c # cs) =
     (if c = d then [] # splitc d cs
      else (case splitc d cs of [] \<Rightarrow> [[c]] | h # t \<Rightarrow> (c # h) # t))"

text \<open>\<^verbatim>\<open>s.split(sep)\<close> for a separator string; \<open>acc\<close> is the piece being read.\<close>

function splitStr :: "string \<Rightarrow> string \<Rightarrow> string \<Rightarrow> string list" where
  "splitStr sep acc [] = [acc]"
| "splitStr sep acc (c # cs) =
     (if sep \<noteq> [] \<and> take (length sep) (c # cs) = sep
      then acc # splitStr sep [] (drop (length sep) (c # cs))
      else splitStr sep (acc @ [c]) cs)"
  by pat_completeness auto
termination
  by (relation "measure (\<lambda>(sep, acc, s). length s)") auto

fun joinc :: "string list \<Rightarrow> string" where
  "joinc [] = []"
| "joinc [s] = s"
| "joinc (s # t # ss) = s @ CHR ''/'' # joinc (t # ss)"

definition dirname :: "path \<Rightarrow> path" where
  "dirname p =
     (let ss = splitc CHR ''/'' p
      in if length ss \<le> 1 then ''.''
         else (let d = joinc (butlast ss) in if d = [] then ''/'' else d))"

definition basename :: "path \<Rightarrow> string" where
  "basename p = last (splitc CHR ''/'' p)"

definition join :: "path \<Rightarrow> path \<Rightarrow> path" where
  "join a b =
     (if b = [] \<or> b = ''.'' then (if a = [] then ''.'' else a)
      else if a = [] \<or> a = ''.'' then b
      else a @ CHR ''/'' # b)"

text \<open>
  \<^verbatim>\<open>_getPrevFilePath\<close>: \<^verbatim>\<open>parse\<close> gives the directory (empty when the path has no
  slash) and the base, \<^verbatim>\<open>format\<close> puts \<^verbatim>\<open>prev.\<close> in front of the base.
\<close>

definition getPrevFilePath :: "path \<Rightarrow> path" where
  "getPrevFilePath p =
     (let ss = splitc CHR ''/'' p
      in if length ss \<le> 1 then ''prev.'' @ p
         else dirname p @ CHR ''/'' # ''prev.'' @ basename p)"

definition startsWith :: "string \<Rightarrow> string \<Rightarrow> bool" where
  "startsWith s pre = (take (length pre) s = pre)"


section \<open>The host: file system, archive codec, formatter\<close>

text \<open>
  The file system holds the cache files: a map from path to content. Reading, \<^verbatim>\<open>stat\<close>
  and \<^verbatim>\<open>delete\<close> of a path that is not there fail; \<^verbatim>\<open>createDirectory\<close> and the
  write of a cache file are taken to succeed (directories are not tracked). The
  container file is kept apart from the cache files, since its content is what the
  archive codec produces; writing it fails when another program holds it (\<^verbatim>\<open>EBUSY\<close>).
\<close>

type_synonym fs = "path \<rightharpoonup> bytes"

datatype error = FileNotFound | FormatError | AttribError | LoadError | Busy

text \<open>A \<^verbatim>\<open>JSZipObject\<close>: a directory entry, or a file entry with its bytes.\<close>

datatype zobj = ZFile bytes | ZDir

text \<open>\<^verbatim>\<open>zip.files\<close>, in the order of \<^verbatim>\<open>Object.keys\<close> (the order of insertion).\<close>

type_synonym zip = "(string \<times> zobj) list"

text \<open>
  What the program takes from its surroundings: the working directory, whether
  \<^verbatim>\<open>attrib +h\<close> wrote to stderr (Windows only), UTF-8 decoding and encoding
  (\<^verbatim>\<open>async('text')\<close>, \<^verbatim>\<open>toString()\<close>, \<^verbatim>\<open>TextEncoder\<close>), \<^verbatim>\<open>xml-formatter\<close> (\<open>None\<close>
  when it throws), and the archive codec (\<^verbatim>\<open>loadAsync\<close>, \<^verbatim>\<open>generateAsync\<close>).
\<close>

record 'c env =
  cwd :: path
  attribFails :: bool
  decodeText :: "bytes \<Rightarrow> string"
  encodeText :: "string \<Rightarrow> bytes"
  formatXml :: "string \<Rightarrow> string option"
  loadAsync :: "'c \<Rightarrow> zip option"
  generateAsync :: "zip \<Rightarrow> 'c"

definition fileCachePath :: "'c env \<Rightarrow> path" where
  "fileCachePath env = join (cwd env) cacheFolderName"

text \<open>\<^verbatim>\<open>zip.file(name)\<close>: the entry of that name when it is not a directory.\<close>

definition zipFile :: "zip \<Rightarrow> string \<Rightarrow> bytes option" where
  "zipFile z name = (case map_of z name of Some (ZFile b) \<Rightarrow> Some b | _ \<Rightarrow> None)"

text \<open>
  \<^verbatim>\<open>zip.file(name, data)\<close>: the folders above \<open>name\<close> are added when missing, then the
  entry is replaced where it stands or added at the end.
\<close>

fun zipSet :: "zip \<Rightarrow> string \<Rightarrow> zobj \<Rightarrow> zip" where
  "zipSet [] k v = [(k, v)]"
| "zipSet ((k', v') # z) k v = (if k' = k then (k, v) # z else (k', v') # zipSet z k v)"

definition parentFolders :: "string \<Rightarrow> string list" where
  "parentFolders name =
     (let ss = splitc CHR ''/'' name
      in map (\<lambda>k. joinc (take k ss) @ ''/'') [1 ..< length ss])"

definition folderAdd :: "zip \<Rightarrow> string \<Rightarrow> zip" where
  "folderAdd z d = (if map_of z d = None then z @ [(d, ZDir)] else z)"

definition zipPut :: "zip \<Rightarrow> string \<Rightarrow> bytes \<Rightarrow> zip" where
  "zipPut z name data = zipSet (foldl folderAdd z (parentFolders name)) name (ZFile data)"


section \<open>Materialising a part: \<^verbatim>\<open>_createFile\<close>\<close>

text \<open>
  The body of the \<^verbatim>\<open>try\<close> block. The text is that of the archive entry
  \<open>fullPath\<close> or, when the archive has no such file, that of the cache file at
  \<open>fullPath\<close>. XML text is formatted when shorter than 100000 characters and written
  encoded; other content is written only when it comes from the archive.
\<close>

definition createFileBody :: "'c env \<Rightarrow> zip \<Rightarrow> fs \<Rightarrow> path \<Rightarrow> string \<Rightarrow> error + fs" where
  "createFileBody env z fs fullPath fileName =
     (let folderPath = join (fileCachePath env) (dirname fullPath);
          filePath = join folderPath fileName;
          preFilePath = join (fileCachePath env) fullPath
      in if attribFails env then Inl AttribError
         else (let file = zipFile z fullPath
           in case (case file of
                      Some b \<Rightarrow> Inr (decodeText env b)
                    | None \<Rightarrow> (case fs preFilePath of
                                 None \<Rightarrow> Inl FileNotFound
                               | Some b \<Rightarrow> Inr (decodeText env b))) of
                Inl e \<Rightarrow> Inl e
              | Inr text \<Rightarrow>
                  if startsWith text ''<?xml'' then
                    (if length text < 100000 then
                       (case formatXml env text of
                          None \<Rightarrow> Inl FormatError
                        | Some formattedXml \<Rightarrow>
                            Inr (fs(filePath \<mapsto>
                                  encodeText env (if formattedXml \<noteq> [] then formattedXml else text))))
                     else Inr (fs(filePath \<mapsto> encodeText env text)))
                  else (case file of
                          Some u8a \<Rightarrow> Inr (fs(filePath \<mapsto> u8a))
                        | None \<Rightarrow> Inr fs)))"

text \<open>The \<^verbatim>\<open>catch\<close> logs the error and returns: nothing was written.\<close>

definition createFile :: "'c env \<Rightarrow> zip \<Rightarrow> fs \<Rightarrow> path \<Rightarrow> string \<Rightarrow> fs" where
  "createFile env z fs fullPath fileName =
     (case createFileBody env z fs fullPath fileName of Inl e \<Rightarrow> fs | Inr fs' \<Rightarrow> fs')"


section \<open>The change detector: \<^verbatim>\<open>_fileHasBeenChangedFromOutside\<close>\<close>

definition fileHasBeenChangedBody :: "'c env \<Rightarrow> fs \<Rightarrow> path \<Rightarrow> error + bool" where
  "fileHasBeenChangedBody env fs firstFile =
     (let secondFile = getPrevFilePath firstFile;
          firstFilePath = join (fileCachePath env) firstFile;
          secondFilePath = join (fileCachePath env) secondFile
      in case fs firstFilePath of
           None \<Rightarrow> Inl FileNotFound
         | Some firstBuffer \<Rightarrow>
             (case fs secondFilePath of
                None \<Rightarrow> Inl FileNotFound
              | Some secondBuffer \<Rightarrow> Inr (firstBuffer \<noteq> secondBuffer)))"

definition fileHasBeenChangedFromOutside :: "'c env \<Rightarrow> fs \<Rightarrow> path \<Rightarrow> bool" where
  "fileHasBeenChangedFromOutside env fs firstFile =
     (case fileHasBeenChangedBody env fs firstFile of Inl e \<Rightarrow> False | Inr b \<Rightarrow> b)"


section \<open>The part tree\<close>

datatype icon = IconDefault | ThemeFolder | ThemeFile | AsteriskYellow | AsteriskGreen | AsteriskRed

text \<open>
  Modelled from the spec: the class \<^verbatim>\<open>FileNode\<close> of \<^verbatim>\<open>ooxml-tree-view-provider.ts\<close>,
  which the viewer imports. A Part Node has a name (\<^verbatim>\<open>fileName\<close>, which \<^verbatim>\<open>description\<close>
  returns), a \<^verbatim>\<open>fullPath\<close>, a status icon and an ordered sequence of children; a
  fresh node has empty strings, no child and the icon \<open>IconDefault\<close>. The parent
  reference is the position of the node in the tree.
\<close>

datatype fileNode =
  FileNode (fileName: string) (fullPath: string) (iconPath: icon) (children: "fileNode list")

definition newFileNode :: fileNode where
  "newFileNode = FileNode [] [] IconDefault []"

fun setIcon :: "icon \<Rightarrow> fileNode \<Rightarrow> fileNode" where
  "setIcon ic (FileNode nm fp ic0 cs) = FileNode nm fp ic cs"

fun setFullPath :: "string \<Rightarrow> fileNode \<Rightarrow> fileNode" where
  "setFullPath fp (FileNode nm fp0 ic cs) = FileNode nm fp ic cs"

fun setChildren :: "fileNode list \<Rightarrow> fileNode \<Rightarrow> fileNode" where
  "setChildren cs (FileNode nm fp ic cs0) = FileNode nm fp ic cs"


section \<open>The reconciliation pass: \<^verbatim>\<open>_populateOOXMLViewer\<close>\<close>

text \<open>
  The branch for a node that exists already: materialise the current file, compare it
  with the previous one, and when they differ write the compare file from the previous
  one and the previous file from the part.
\<close>

definition visitExisting :: "'c env \<Rightarrow> zip \<Rightarrow> fileNode \<Rightarrow> fs \<Rightarrow> fileNode \<times> fs" where
  "visitExisting env z c fs =
     (let fs1 = createFile env z fs (fullPath c) (fileName c);
          filesAreDifferent = fileHasBeenChangedFromOutside env fs1 (fullPath c)
      in if filesAreDifferent then
           (let path = getPrevFilePath (fullPath c);
                fs2 = createFile env z fs1 path (''compare.'' @ fileName c);
                fs3 = createFile env z fs2 (fullPath c) (''prev.'' @ fileName c)
            in (setIcon AsteriskYellow c, fs3))
         else (setIcon (if children c \<noteq> [] then ThemeFolder else ThemeFile) c, fs1))"

text \<open>
  The branch for a name that has no node yet: the new node takes the whole entry path
  as its \<^verbatim>\<open>fullPath\<close>; the current and previous files are written from the part, the
  compare file is empty on a refresh and a third copy on the first load.
\<close>

definition visitNew :: "'c env \<Rightarrow> zip \<Rightarrow> bool \<Rightarrow> string \<Rightarrow> string \<Rightarrow> fs \<Rightarrow> fileNode \<times> fs" where
  "visitNew env z showNewFileLabel fileWithPath fileOrFolderName fs =
     (let fs1 = createFile env z fs fileWithPath fileOrFolderName;
          fs2 = createFile env z fs1 fileWithPath (''prev.'' @ fileOrFolderName)
      in if showNewFileLabel then
           (let compareFilePath =
                  join (join (fileCachePath env) (dirname fileWithPath))
                    (''compare.'' @ fileOrFolderName)
            in (FileNode fileOrFolderName fileWithPath AsteriskGreen [],
                fs2(compareFilePath \<mapsto> [])))
         else (FileNode fileOrFolderName fileWithPath IconDefault [],
               createFile env z fs2 fileWithPath (''compare.'' @ fileOrFolderName)))"

text \<open>
  The loop over the names of one entry, from the node \<^verbatim>\<open>currentFileNode\<close> downwards;
  when the names are used up the node reached takes the entry path as \<^verbatim>\<open>fullPath\<close>.
\<close>

fun walk ::
  "'c env \<Rightarrow> zip \<Rightarrow> bool \<Rightarrow> string \<Rightarrow> string list \<Rightarrow> fileNode \<Rightarrow> fs \<Rightarrow> fileNode \<times> fs" where
  "walk env z lbl fileWithPath [] node fs = (setFullPath fileWithPath node, fs)"
| "walk env z lbl fileWithPath (nm # names) node fs =
     (case List.extract (\<lambda>c. fileName c = nm) (children node) of
        Some (before, c, after) \<Rightarrow>
          (case visitExisting env z c fs of
             (c1, fs1) \<Rightarrow>
               (case walk env z lbl fileWithPath names c1 fs1 of
                  (c2, fs2) \<Rightarrow> (setChildren (before @ c2 # after) node, fs2)))
      | None \<Rightarrow>
          (case visitNew env z lbl fileWithPath nm fs of
             (n1, fs1) \<Rightarrow>
               (case walk env z lbl fileWithPath names n1 fs1 of
                  (n2, fs2) \<Rightarrow> (setChildren (children node @ [n2]) node, fs2))))"

text \<open>The loop over the entries: directory entries are skipped.\<close>

fun populateEntries ::
  "'c env \<Rightarrow> zip \<Rightarrow> bool \<Rightarrow> (string \<times> zobj) list \<Rightarrow> fileNode \<Rightarrow> fs \<Rightarrow> fileNode \<times> fs" where
  "populateEntries env z lbl [] root fs = (root, fs)"
| "populateEntries env z lbl ((fileWithPath, obj) # es) root fs =
     (case obj of
        ZDir \<Rightarrow> populateEntries env z lbl es root fs
      | ZFile b \<Rightarrow>
          (case walk env z lbl fileWithPath (splitc CHR ''/'' fileWithPath) root fs of
             (root1, fs1) \<Rightarrow> populateEntries env z lbl es root1 fs1))"


section \<open>Removing deleted parts: \<^verbatim>\<open>_removeDeletedParts\<close>\<close>

text \<open>
  The callbacks of \<^verbatim>\<open>forEach\<close> are asynchronous and nobody awaits them. The model
  runs them to their end one after the other, in the order in which they were started.
  The children array is kept with the index each child had when the loop began, which
  is the index the callback hands to \<^verbatim>\<open>splice\<close>.
\<close>

definition splice :: "nat \<Rightarrow> 'a list \<Rightarrow> 'a list" where
  "splice i arr = take i arr @ drop (Suc i) arr"

definition setTagged :: "nat \<Rightarrow> (fileNode \<Rightarrow> fileNode) \<Rightarrow> (nat \<times> fileNode) list \<Rightarrow> (nat \<times> fileNode) list" where
  "setTagged i f arr = map (\<lambda>(j, m). if j = i then (j, f m) else (j, m)) arr"

text \<open>
  A child whose \<^verbatim>\<open>fullPath\<close> is not a key of the archive: a cache file with content
  is emptied and the node marked; an empty one is deleted with its two companions and
  the element at the callback's index is cut out of the array. A read or a delete that
  fails ends the callback.
\<close>

definition deletedPart ::
  "'c env \<Rightarrow> fileNode \<Rightarrow> nat \<Rightarrow> (nat \<times> fileNode) list \<Rightarrow> fs \<Rightarrow> (nat \<times> fileNode) list \<times> fs" where
  "deletedPart env n i arr fs =
     (let path = join (fileCachePath env) (fullPath n)
      in case fs path of
           None \<Rightarrow> (arr, fs)
         | Some b \<Rightarrow>
             if decodeText env b \<noteq> [] then
               (setTagged i (setIcon AsteriskRed) arr, fs(path \<mapsto> []))
             else
               (let fs1 = fs(path := None);
                    prevPath = join (dirname path) (''prev.'' @ basename path);
                    comparePath = join (dirname path) (''compare.'' @ basename path)
                in if fs1 prevPath = None then (arr, fs1)
                   else (let fs2 = fs1(prevPath := None)
                         in if fs2 comparePath = None then (arr, fs2)
                            else (splice i arr, fs2(comparePath := None)))))"

fun removeDeletedParts :: "'c env \<Rightarrow> zip \<Rightarrow> fileNode \<Rightarrow> fs \<Rightarrow> fileNode \<times> fs"
  and forEachChild ::
    "'c env \<Rightarrow> zip \<Rightarrow> fileNode list \<Rightarrow> nat \<Rightarrow> (nat \<times> fileNode) list \<Rightarrow> fs \<Rightarrow> (nat \<times> fileNode) list \<times> fs"
  and forEachGrandchild :: "'c env \<Rightarrow> zip \<Rightarrow> fileNode list \<Rightarrow> fs \<Rightarrow> fileNode list \<times> fs" where
  "removeDeletedParts env z (FileNode nm fp ic cs) fs =
     (case forEachChild env z cs 0 (enumerate 0 cs) fs of
        (arr, fs1) \<Rightarrow> (FileNode nm fp ic (map snd arr), fs1))"
| "forEachChild env z [] i arr fs = (arr, fs)"
| "forEachChild env z (FileNode nm fp ic cs # ns) i arr fs =
     (if fp \<notin> set (map fst z) then
        (case deletedPart env (FileNode nm fp ic cs) i arr fs of
           (arr1, fs1) \<Rightarrow> forEachChild env z ns (Suc i) arr1 fs1)
      else if cs \<noteq> [] then
        (case forEachGrandchild env z cs fs of
           (cs1, fs1) \<Rightarrow> forEachChild env z ns (Suc i) (setTagged i (setChildren cs1) arr) fs1)
      else forEachChild env z ns (Suc i) arr fs)"
| "forEachGrandchild env z [] fs = ([], fs)"
| "forEachGrandchild env z (nn # nns) fs =
     (case removeDeletedParts env z nn fs of
        (nn1, fs1) \<Rightarrow>
          (case forEachGrandchild env z nns fs1 of
             (nns1, fs2) \<Rightarrow> (nn1 # nns1, fs2)))"

definition populateOOXMLViewer ::
  "'c env \<Rightarrow> zip \<Rightarrow> bool \<Rightarrow> fileNode \<Rightarrow> fs \<Rightarrow> fileNode \<times> fs" where
  "populateOOXMLViewer env z showNewFileLabel root fs =
     (case populateEntries env z showNewFileLabel z root fs of
        (root1, fs1) \<Rightarrow>
          if showNewFileLabel then removeDeletedParts env z root1 fs1 else (root1, fs1))"


section \<open>The viewer: loading, reloading, writing back\<close>

text \<open>
  The state of the viewer and of the files it works on: the archive in memory, the
  tree, the cache files, the container file and whether another program holds it, and
  the modification time last handled for each saved file.
\<close>

record 'c viewer =
  zip :: zip
  rootFileNode :: fileNode
  files :: fs
  ooxmlFile :: 'c
  ooxmlBusy :: bool
  watchActions :: "path \<rightharpoonup> nat"

text \<open>
  \<^verbatim>\<open>_resetOOXMLViewer\<close>: an empty archive, a fresh root, and the cache folder removed
  with all that is in it.
\<close>

definition purgeCache :: "'c env \<Rightarrow> fs \<Rightarrow> fs" where
  "purgeCache env fs =
     (\<lambda>p. if p = fileCachePath env \<or> startsWith p (fileCachePath env @ ''/'') then None
          else fs p)"

definition resetOOXMLViewer :: "'c env \<Rightarrow> 'c viewer \<Rightarrow> 'c viewer" where
  "resetOOXMLViewer env st =
     st\<lparr>zip := [], rootFileNode := newFileNode, files := purgeCache env (files st)\<rparr>"

text \<open>
  \<^verbatim>\<open>viewContents\<close>: reset, load the container, populate without the new-file label.
  When the container does not load, the error is caught and shown and the state is the
  one after the reset.
\<close>

definition viewContents :: "'c env \<Rightarrow> 'c viewer \<Rightarrow> (error + unit) \<times> 'c viewer" where
  "viewContents env st =
     (let st1 = resetOOXMLViewer env st
      in case loadAsync env (ooxmlFile st1) of
           None \<Rightarrow> (Inl LoadError, st1)
         | Some z \<Rightarrow>
             (case populateOOXMLViewer env z False (rootFileNode st1) (files st1) of
                (root1, fs1) \<Rightarrow>
                  (Inr (), st1\<lparr>zip := z, rootFileNode := root1, files := fs1\<rparr>)))"

text \<open>
  \<^verbatim>\<open>_reloadOoxmlFile\<close>: the container is read and decoded before anything else; when
  that fails the exception leaves the function and the state is as it was. Showing the
  open editors again (\<^verbatim>\<open>_viewFiles\<close>) belongs to the editor surface and is left out.
\<close>

definition reloadOoxmlFile :: "'c env \<Rightarrow> 'c viewer \<Rightarrow> (error + unit) \<times> 'c viewer" where
  "reloadOoxmlFile env st =
     (case loadAsync env (ooxmlFile st) of
        None \<Rightarrow> (Inl LoadError, st)
      | Some z \<Rightarrow>
          (case populateOOXMLViewer env z True (rootFileNode st) (files st) of
             (root1, fs1) \<Rightarrow> (Inr (), st\<lparr>zip := z, rootFileNode := root1, files := fs1\<rparr>)))"

text \<open>
  \<^verbatim>\<open>_updateOOXMLFile\<close>, the handler of a saved document \<^verbatim>\<open>e\<close>; \<open>fname\<close> is
  \<^verbatim>\<open>e.fileName\<close> and \<open>time\<close> the modification time that \<^verbatim>\<open>stat\<close> reports for the
  saved file. The entry name is what follows the
  last occurrence of the cache folder name, with slashes for backslashes and without a
  leading slash. When the container is held by another program its write throws
  \<^verbatim>\<open>EBUSY\<close>: the archive in memory has the new bytes already, the files stay as they
  were.
\<close>

definition normalizedPath :: "path \<Rightarrow> string" where
  "normalizedPath fname =
     (let pathArr = splitStr cacheFolderName [] fname;
          p = map (\<lambda>c. if c = CHR 0x5C then CHR ''/'' else c) (last pathArr)
      in if startsWith p ''/'' then drop 1 p else p)"

definition comparePathOf :: "path \<Rightarrow> path" where
  "comparePathOf fname =
     join (dirname (getPrevFilePath fname)) (''compare.'' @ basename fname)"

definition updateOOXMLFile :: "'c env \<Rightarrow> 'c viewer \<Rightarrow> path \<Rightarrow> nat \<Rightarrow> 'c viewer" where
  "updateOOXMLFile env st fname time =
     (let prevFilePath = (if fname \<noteq> [] then getPrevFilePath fname else [])
      in case (if fname \<noteq> [] then files st fname else None) of
           None \<Rightarrow> st
         | Some cur \<Rightarrow>
             (case (if prevFilePath \<noteq> [] then files st prevFilePath else None) of
                None \<Rightarrow> st
              | Some prev \<Rightarrow>
                  if watchActions st fname \<noteq> Some time then
                    (let st1 = st\<lparr>watchActions := (watchActions st)(fname \<mapsto> time)\<rparr>
                     in if cur \<noteq> prev then
                          (let z1 = zipPut (zip st1) (normalizedPath fname) cur;
                               st2 = st1\<lparr>zip := z1\<rparr>
                           in if ooxmlBusy st2 then st2
                              else st2\<lparr>ooxmlFile := generateAsync env z1,
                                       files := (files st2)(comparePathOf fname \<mapsto> prev,
                                                           prevFilePath \<mapsto> cur)\<rparr>)
                        else st1)
                  else st))"


section \<open>Notions used in the statements\<close>

text \<open>
  The three generation files of the part \<open>e\<close>: the current file is where the change
  detector looks for the part, the previous file is what \<^verbatim>\<open>_getPrevFilePath\<close> names,
  the compare file is the one \<^verbatim>\<open>getDiff\<close> opens.
\<close>

definition currentFile :: "'c env \<Rightarrow> string \<Rightarrow> path" where
  "currentFile env e = join (fileCachePath env) e"

definition previousFile :: "'c env \<Rightarrow> string \<Rightarrow> path" where
  "previousFile env e = join (fileCachePath env) (getPrevFilePath e)"

definition compareFile :: "'c env \<Rightarrow> string \<Rightarrow> path" where
  "compareFile env e = join (join (fileCachePath env) (dirname e)) (''compare.'' @ basename e)"

definition generations :: "'c env \<Rightarrow> 'c viewer \<Rightarrow> string \<Rightarrow> bytes option list" where
  "generations env st e =
     map (files st) [currentFile env e, previousFile env e, compareFile env e]"



text \<open>
  The relation between a node and its parent in the words of the specification:
  the \<^verbatim>\<open>fullPath\<close> of every node below the root is the parent's \<^verbatim>\<open>fullPath\<close>, a
  slash and the node's name.
\<close>

fun parentPathInvariant :: "fileNode \<Rightarrow> bool" where
  "parentPathInvariant (FileNode nm fp ic cs) =
     list_all (\<lambda>c. fullPath c = fp @ ''/'' @ fileName c \<and> parentPathInvariant c) cs"

text \<open>
  The relation that the code keeps: the names on the way from the root to a node are
  the first segments of the node's \<^verbatim>\<open>fullPath\<close>. \<open>ns\<close> are the names from the root to
  the node whose children are examined.
\<close>

definition under :: "string list \<Rightarrow> string \<Rightarrow> bool" where
  "under ns fp = (take (length ns) (splitc CHR ''/'' fp) = ns)"

fun positionInvariant :: "string list \<Rightarrow> fileNode \<Rightarrow> bool" where
  "positionInvariant ns (FileNode nm fp ic cs) =
     list_all (\<lambda>c. under (ns @ [fileName c]) (fullPath c)
                  \<and> positionInvariant (ns @ [fileName c]) c) cs"

definition placed :: "string list \<Rightarrow> fileNode \<Rightarrow> bool" where
  "placed ns c = (under (ns @ [fileName c]) (fullPath c) \<and> positionInvariant (ns @ [fileName c]) c)"

text \<open>
  A cache that is in step with the archive \<open>z\<close>: for every node below the root the
  \<^verbatim>\<open>fullPath\<close> is a key of the archive, materialising the node's file would leave that
  file as it is, and the change detector finds no difference for the node.
\<close>

definition nodeInSync :: "'c env \<Rightarrow> zip \<Rightarrow> fs \<Rightarrow> fileNode \<Rightarrow> bool" where
  "nodeInSync env z fs n =
     (let filePath = join (join (fileCachePath env) (dirname (fullPath n))) (fileName n)
      in fullPath n \<in> set (map fst z)
         \<and> createFile env z fs (fullPath n) (fileName n) filePath = fs filePath
         \<and> \<not> fileHasBeenChangedFromOutside env fs (fullPath n))"

fun treeInSync :: "'c env \<Rightarrow> zip \<Rightarrow> fs \<Rightarrow> fileNode \<Rightarrow> bool" where
  "treeInSync env z fs (FileNode nm fp ic cs) =
     list_all (\<lambda>c. nodeInSync env z fs c \<and> treeInSync env z fs c) cs"

text \<open>
  The entry \<open>e\<close> has its node: following the names from \<open>node\<close> leads to a node whose
  \<^verbatim>\<open>fullPath\<close> is \<open>e\<close>. Every file entry of a list has its node below \<open>root\<close>.
\<close>

fun hasEntryNode :: "string \<Rightarrow> string list \<Rightarrow> fileNode \<Rightarrow> bool" where
  "hasEntryNode e [] node = (fullPath node = e)"
| "hasEntryNode e (nm # names) node =
     (case List.extract (\<lambda>c. fileName c = nm) (children node) of
        None \<Rightarrow> False
      | Some (before, c, after) \<Rightarrow> hasEntryNode e names c)"


text \<open>
  The files that the pass may write when it comes to a node, or makes a node, with the
  \<^verbatim>\<open>fullPath\<close> \<open>fp\<close> and the name \<open>nm\<close>: the three files of \<^verbatim>\<open>_createFile\<close> for that name, and
  the compare file written from the previous path.
\<close>

definition touched :: "'c env \<Rightarrow> string \<Rightarrow> string \<Rightarrow> path list" where
  "touched env fp nm =
     [join (join (fileCachePath env) (dirname fp)) nm,
      join (join (fileCachePath env) (dirname fp)) (''prev.'' @ nm),
      join (join (fileCachePath env) (dirname fp)) (''compare.'' @ nm),
      join (join (fileCachePath env) (dirname (getPrevFilePath fp))) (''compare.'' @ nm)]"

text \<open>
  A name is apart from the part \<open>e\<close> when it is the part's own (the \<^verbatim>\<open>fullPath\<close> is \<open>e\<close>
  and the name its last segment) or writes none of the three generation files of \<open>e\<close>.
  That holds for the nodes below a node, and for the names of the file entries of a list.
\<close>

definition apart :: "'c env \<Rightarrow> string \<Rightarrow> string \<Rightarrow> string \<Rightarrow> bool" where
  "apart env e fp nm =
     ((fp = e \<and> nm = basename e)
      \<or> list_all (\<lambda>p. p \<notin> set [currentFile env e, previousFile env e, compareFile env e])
           (touched env fp nm))"

fun nodesApart :: "'c env \<Rightarrow> string \<Rightarrow> fileNode \<Rightarrow> bool" where
  "nodesApart env e (FileNode nm fp ic cs) =
     list_all (\<lambda>c. apart env e (fullPath c) (fileName c) \<and> nodesApart env e c) cs"



text \<open>Every node below a node has its \<^verbatim>\<open>fullPath\<close> among the keys of the archive.\<close>

fun allPresent :: "zip \<Rightarrow> fileNode \<Rightarrow> bool" where
  "allPresent z (FileNode nm fp ic cs) =
     list_all (\<lambda>c. fullPath c \<in> set (map fst z) \<and> allPresent z c) cs"


text \<open>
  There is a node where the names lead from a node. A part is a leaf of a list of
  entries when its segments begin no other file entry.
\<close>

fun hasNodeAt :: "string list \<Rightarrow> fileNode \<Rightarrow> bool" where
  "hasNodeAt [] node = True"
| "hasNodeAt (nm # names) node =
     (case List.extract (\<lambda>c. fileName c = nm) (children node) of
        None \<Rightarrow> False
      | Some (before, c, after) \<Rightarrow> hasNodeAt names c)"





text \<open>
  What the walk of another entry may do to the three files of the part: nothing, or
  write \<open>m\<close> into the current file.
\<close>

definition settles :: "'c env \<Rightarrow> string \<Rightarrow> bytes \<Rightarrow> fs \<Rightarrow> fs \<Rightarrow> bool" where
  "settles env e m fs fs' =
     (fs' (previousFile env e) = fs (previousFile env e)
      \<and> fs' (compareFile env e) = fs (compareFile env e)
      \<and> (fs' (currentFile env e) = fs (currentFile env e) \<or> fs' (currentFile env e) = Some m))"

text \<open>The tree without its icons.\<close>

fun strip :: "fileNode \<Rightarrow> fileNode" where
  "strip (FileNode nm fp ic cs) = FileNode nm fp IconDefault (map strip cs)"


section \<open>Concrete hosts and states\<close>

text \<open>
  A host whose decoding, encoding and formatting change nothing and whose containers
  are the archives themselves, with the working directory \<^verbatim>\<open>/w\<close>.
\<close>

definition plainEnv :: "zip env" where
  "plainEnv = \<lparr>cwd = ''/w'', attribFails = False, decodeText = id, encodeText = id,
                formatXml = Some, loadAsync = Some, generateAsync = id\<rparr>"

definition cacheDir :: path where
  "cacheDir = ''/w/.53d3a0ba-37e3-41cf-a068-b10b392cf8ca''"

definition docZip :: zip where
  "docZip = [(''a/x.xml'', ZFile ''<a/>''), (''a/y.bin'', ZFile ''DEAD'')]"

text \<open>
  The cache after \<open>docZip\<close> was opened, with the file \<^verbatim>\<open>a/y.bin\<close> holding \<open>cur\<close>,
  and the modification times handled so far.
\<close>

definition savedState :: "bytes \<Rightarrow> (path \<rightharpoonup> nat) \<Rightarrow> zip viewer" where
  "savedState cur seen =
     \<lparr>zip = docZip, rootFileNode = newFileNode,
      files = [cacheDir @ ''/a/x.xml'' \<mapsto> ''<a/>'', cacheDir @ ''/a/prev.x.xml'' \<mapsto> ''<a/>'',
               cacheDir @ ''/a/compare.x.xml'' \<mapsto> ''<a/>'',
               cacheDir @ ''/a/y.bin'' \<mapsto> cur, cacheDir @ ''/a/prev.y.bin'' \<mapsto> ''DEAD'',
               cacheDir @ ''/a/compare.y.bin'' \<mapsto> ''DEAD''],
      ooxmlFile = docZip, ooxmlBusy = False, watchActions = seen\<rparr>"


text \<open>
  A viewer that has nothing loaded; the state after the container \<open>c\<close> was opened; the
  state after the container was replaced by \<open>c\<close> from outside and reloaded.
\<close>

definition freshViewer :: "'c \<Rightarrow> 'c viewer" where
  "freshViewer c =
     \<lparr>zip = [], rootFileNode = newFileNode, files = Map.empty, ooxmlFile = c,
      ooxmlBusy = False, watchActions = Map.empty\<rparr>"

definition opened :: "'c env \<Rightarrow> 'c \<Rightarrow> 'c viewer" where
  "opened env c = snd (viewContents env (freshViewer c))"

definition reloaded :: "'c env \<Rightarrow> 'c \<Rightarrow> 'c viewer \<Rightarrow> 'c viewer" where
  "reloaded env c st = snd (reloadOoxmlFile env (st\<lparr>ooxmlFile := c\<rparr>))"

text \<open>A binary part that is changed from outside twice.\<close>

definition binA :: zip where "binA = [(''a/y.bin'', ZFile ''A'')]"
definition binB :: zip where "binB = [(''a/y.bin'', ZFile ''B'')]"
definition binC :: zip where "binC = [(''a/y.bin'', ZFile ''C'')]"

text \<open>\<open>docZip\<close> without \<^verbatim>\<open>a/y.bin\<close>; two parts at the top, and the first of them alone.\<close>

definition docZipLess :: zip where
  "docZipLess = [(''a/x.xml'', ZFile ''<a/>'')]"






section \<open>Facts about paths and archives\<close>

lemma splitc_not_Nil [simp]: "splitc d s \<noteq> []"
  by (induction s) (auto split: list.splits)

















section \<open>The change detector\<close>

text \<open>
  C7. The change detector answers true exactly when the current cache file of the
  part and its previous file are both there and differ in their bytes; when either
  cannot be read the body fails, and the detector catches that and answers false.
\<close>

theorem fileHasBeenChanged_iff_differ:
  "fileHasBeenChangedFromOutside env fs p =
     (case (fs (currentFile env p), fs (previousFile env p)) of
        (Some a, Some b) \<Rightarrow> a \<noteq> b
      | _ \<Rightarrow> False)
   \<and> ((\<exists>e. fileHasBeenChangedBody env fs p = Inl e) \<longleftrightarrow>
        fs (currentFile env p) = None \<or> fs (previousFile env p) = None)"
  by (simp add: fileHasBeenChangedFromOutside_def fileHasBeenChangedBody_def Let_def
      currentFile_def previousFile_def split: option.splits)

theorem fileHasBeenChanged_iff_differ_witness:
  "fileHasBeenChangedFromOutside plainEnv (files (savedState ''BEEF'' Map.empty)) ''a/y.bin''
   \<and> \<not> fileHasBeenChangedFromOutside plainEnv (files (savedState ''DEAD'' Map.empty)) ''a/y.bin''
   \<and> \<not> fileHasBeenChangedFromOutside plainEnv (files (savedState ''DEAD'' Map.empty)) ''a/z.bin''"
proof -
  have p1: "currentFile plainEnv ''a/y.bin'' = cacheDir @ ''/a/y.bin''"
    and p2: "previousFile plainEnv ''a/y.bin'' = cacheDir @ ''/a/prev.y.bin''"
    and p3: "currentFile plainEnv ''a/z.bin'' = cacheDir @ ''/a/z.bin''"
    by code_simp+
  show ?thesis
    using fileHasBeenChanged_iff_differ[of plainEnv "files (savedState ''BEEF'' Map.empty)" "''a/y.bin''"]
      fileHasBeenChanged_iff_differ[of plainEnv "files (savedState ''DEAD'' Map.empty)" "''a/y.bin''"]
      fileHasBeenChanged_iff_differ[of plainEnv "files (savedState ''DEAD'' Map.empty)" "''a/z.bin''"]
    by (simp add: p1 p2 p3 savedState_def cacheDir_def)
qed


section \<open>Writing a saved cache file back\<close>

text \<open>
  C6. When the saved cache file has the same bytes as its previous file, the handler
  writes neither the container nor any cache file, and the archive in memory stays as
  it was.
\<close>

theorem save_identical_is_noop:
  assumes "files st fname = Some b" and "files st (getPrevFilePath fname) = Some b"
  shows "files (updateOOXMLFile env st fname time) = files st
       \<and> ooxmlFile (updateOOXMLFile env st fname time) = ooxmlFile st
       \<and> zip (updateOOXMLFile env st fname time) = zip st"
  using assms by (auto simp: updateOOXMLFile_def Let_def split: option.splits)

theorem save_identical_is_noop_witness:
  "files (savedState ''DEAD'' Map.empty) (cacheDir @ ''/a/y.bin'') = Some ''DEAD''
   \<and> files (savedState ''DEAD'' Map.empty) (getPrevFilePath (cacheDir @ ''/a/y.bin'')) = Some ''DEAD''
   \<and> files (updateOOXMLFile plainEnv (savedState ''DEAD'' Map.empty) (cacheDir @ ''/a/y.bin'') 7)
       = files (savedState ''DEAD'' Map.empty)
   \<and> ooxmlFile (updateOOXMLFile plainEnv (savedState ''DEAD'' Map.empty) (cacheDir @ ''/a/y.bin'') 7)
       = docZip"
proof -
  have h1: "files (savedState ''DEAD'' Map.empty) (cacheDir @ ''/a/y.bin'') = Some ''DEAD''"
    by code_simp
  have h2: "files (savedState ''DEAD'' Map.empty) (getPrevFilePath (cacheDir @ ''/a/y.bin'')) = Some ''DEAD''"
    by code_simp
  show ?thesis
    using h1 h2 save_identical_is_noop[OF h1 h2, of plainEnv 7]
    by (simp add: savedState_def)
qed



text \<open>
  C8 as stated fails: a notification whose modification time lies before the one
  handled last is not ignored, the container is written.
\<close>

theorem save_earlier_time_counterexample:
  "watchActions (savedState ''BEEF'' [cacheDir @ ''/a/y.bin'' \<mapsto> 5]) (cacheDir @ ''/a/y.bin'') = Some 5
   \<and> \<not> (5 < (3::nat))
   \<and> zipFile (ooxmlFile (savedState ''BEEF'' [cacheDir @ ''/a/y.bin'' \<mapsto> 5])) ''a/y.bin'' = Some ''DEAD''
   \<and> zipFile (ooxmlFile (updateOOXMLFile plainEnv (savedState ''BEEF'' [cacheDir @ ''/a/y.bin'' \<mapsto> 5])
        (cacheDir @ ''/a/y.bin'') 3)) ''a/y.bin'' = Some ''BEEF''
   \<and> files (updateOOXMLFile plainEnv (savedState ''BEEF'' [cacheDir @ ''/a/y.bin'' \<mapsto> 5])
        (cacheDir @ ''/a/y.bin'') 3) (cacheDir @ ''/a/prev.y.bin'') = Some ''BEEF''"
  by code_simp

text \<open>
  C8, amended. A save notification whose modification time equals the one handled
  last for that path is ignored: the whole state, with the container, the cache files
  and the recorded times, is as before.
\<close>

theorem save_same_time_is_ignored:
  assumes "watchActions st fname = Some time"
  shows "updateOOXMLFile env st fname time = st"
  using assms by (auto simp: updateOOXMLFile_def Let_def split: option.splits)

theorem save_same_time_is_ignored_witness:
  "watchActions (savedState ''BEEF'' [cacheDir @ ''/a/y.bin'' \<mapsto> 5]) (cacheDir @ ''/a/y.bin'') = Some 5
   \<and> updateOOXMLFile plainEnv (savedState ''BEEF'' [cacheDir @ ''/a/y.bin'' \<mapsto> 5]) (cacheDir @ ''/a/y.bin'') 5
       = savedState ''BEEF'' [cacheDir @ ''/a/y.bin'' \<mapsto> 5]"
proof -
  have h: "watchActions (savedState ''BEEF'' [cacheDir @ ''/a/y.bin'' \<mapsto> 5]) (cacheDir @ ''/a/y.bin'') = Some 5"
    by (simp add: savedState_def)
  show ?thesis using h save_same_time_is_ignored[OF h, of plainEnv] by simp
qed


section \<open>The pass on concrete containers\<close>

text \<open>
  C1 fails on the code for a part that is not XML. The part \<^verbatim>\<open>a/y.bin\<close> is opened with
  the bytes \<open>A\<close>, changed outside to \<open>B\<close> and reloaded, changed to \<open>C\<close> and reloaded. Before
  the last pass the previous file holds \<open>B\<close>; after it the current and previous files
  hold \<open>C\<close> and the node is marked, but the compare file still holds \<open>A\<close>.
\<close>

theorem binary_compare_is_stale:
  "generations plainEnv (reloaded plainEnv binB (opened plainEnv binA)) ''a/y.bin''
     = [Some ''B'', Some ''B'', Some ''A'']
   \<and> generations plainEnv (reloaded plainEnv binC (reloaded plainEnv binB (opened plainEnv binA))) ''a/y.bin''
     = [Some ''C'', Some ''C'', Some ''A'']
   \<and> rootFileNode (reloaded plainEnv binC (reloaded plainEnv binB (opened plainEnv binA)))
     = FileNode [] [] IconDefault
         [FileNode ''a'' ''a/y.bin'' ThemeFolder [FileNode ''y.bin'' ''a/y.bin'' AsteriskYellow []]]"
  by code_simp

text \<open>
  C5 fails on the code for a part in a folder below the root. \<open>docZip\<close> is opened, then
  \<^verbatim>\<open>a/y.bin\<close> is deleted from the container and the container is reloaded twice. After
  both passes the three files of \<^verbatim>\<open>a/y.bin\<close> hold their bytes and its node is in the
  tree, unmarked.
\<close>

theorem nested_deleted_part_is_kept:
  "generations plainEnv (reloaded plainEnv docZipLess (opened plainEnv docZip)) ''a/y.bin''
     = [Some ''DEAD'', Some ''DEAD'', Some ''DEAD'']
   \<and> generations plainEnv (reloaded plainEnv docZipLess (reloaded plainEnv docZipLess (opened plainEnv docZip)))
        ''a/y.bin''
     = [Some ''DEAD'', Some ''DEAD'', Some ''DEAD'']
   \<and> rootFileNode (reloaded plainEnv docZipLess (reloaded plainEnv docZipLess (opened plainEnv docZip)))
     = FileNode [] [] IconDefault
         [FileNode ''a'' ''a/x.xml'' ThemeFolder
            [FileNode ''x.xml'' ''a/x.xml'' ThemeFile [],
             FileNode ''y.bin'' ''a/y.bin'' IconDefault []]]"
  by code_simp



text \<open>
  C9 as stated fails: after \<open>docZip\<close> was opened, the folder node \<^verbatim>\<open>a\<close> and the leaf
  \<^verbatim>\<open>x.xml\<close> below it both have the \<^verbatim>\<open>fullPath\<close> \<^verbatim>\<open>a/x.xml\<close>.
\<close>

theorem parent_path_counterexample:
  "rootFileNode (opened plainEnv docZip)
     = FileNode [] [] IconDefault
         [FileNode ''a'' ''a/x.xml'' ThemeFolder
            [FileNode ''x.xml'' ''a/x.xml'' IconDefault [],
             FileNode ''y.bin'' ''a/y.bin'' IconDefault []]]
   \<and> \<not> parentPathInvariant (rootFileNode (opened plainEnv docZip))"
  by code_simp






section \<open>The position of a node and its \<^verbatim>\<open>fullPath\<close>\<close>

lemma positionInvariant_children:
  "positionInvariant ns node = (\<forall>c \<in> set (children node). placed ns c)"
  by (cases node) (simp add: placed_def list_all_iff)

lemma sel_setIcon [simp]:
  "fileName (setIcon ic c) = fileName c" "fullPath (setIcon ic c) = fullPath c"
  "children (setIcon ic c) = children c" "iconPath (setIcon ic c) = ic"
  by (cases c; simp)+

lemma sel_setFullPath [simp]:
  "fileName (setFullPath fp c) = fileName c" "fullPath (setFullPath fp c) = fp"
  "children (setFullPath fp c) = children c"
  by (cases c; simp)+

lemma sel_setChildren [simp]:
  "fileName (setChildren cs c) = fileName c" "fullPath (setChildren cs c) = fullPath c"
  "children (setChildren cs c) = cs"
  by (cases c; simp)+

lemma fst_visitExisting: "\<exists>ic. fst (visitExisting env z c fs) = setIcon ic c"
  by (auto simp: visitExisting_def Let_def)

lemma fst_visitNew:
  "fst (visitNew env z lbl fwp nm fs) = FileNode nm fwp (if lbl then AsteriskGreen else IconDefault) []"
  by (simp add: visitNew_def Let_def)



lemma positionInvariant_setIcon [simp]: "positionInvariant ns (setIcon ic c) = positionInvariant ns c"
  by (cases c) simp

lemma positionInvariant_setFullPath [simp]:
  "positionInvariant ns (setFullPath fp c) = positionInvariant ns c"
  by (cases c) simp

lemma positionInvariant_setChildren:
  "positionInvariant ns (setChildren cs c) = (\<forall>c' \<in> set cs. placed ns c')"
  by (cases c) (simp add: placed_def list_all_iff)

lemma positionInvariant_leaf [simp]: "positionInvariant ns (FileNode nm fp ic [])"
  by simp

lemma walk_position:
  assumes "positionInvariant ns node" and "ns @ names = splitc CHR ''/'' fwp"
  shows "positionInvariant ns (fst (walk env z lbl fwp names node fs))
       \<and> fileName (fst (walk env z lbl fwp names node fs)) = fileName node
       \<and> fullPath (fst (walk env z lbl fwp names node fs)) = (if names = [] then fwp else fullPath node)"
  using assms
proof (induction names arbitrary: ns node fs)
  case Nil
  then show ?case by simp
next
  case (Cons nm names)
  have split: "(ns @ [nm]) @ names = splitc CHR ''/'' fwp" using Cons.prems(2) by simp
  have under_end: "names = [] \<Longrightarrow> under (ns @ [nm]) fwp"
    using split by (simp add: under_def)
  have under_new: "under (ns @ [nm]) fwp"
    unfolding under_def using split[symmetric] by simp
  show ?case
  proof (cases "List.extract (\<lambda>c. fileName c = nm) (children node)")
    case None
    obtain n1 fs1 where v: "visitNew env z lbl fwp nm fs = (n1, fs1)" by force
    have n1: "n1 = FileNode nm fwp (if lbl then AsteriskGreen else IconDefault) []"
      using fst_visitNew[of env z lbl fwp nm fs] v by simp
    obtain n2 fs2 where w: "walk env z lbl fwp names n1 fs1 = (n2, fs2)" by force
    have "positionInvariant (ns @ [nm]) n1" unfolding n1 by (rule positionInvariant_leaf)
    from Cons.IH[OF this split, of fs1] w
    have n2: "positionInvariant (ns @ [nm]) n2" "fileName n2 = nm"
      "fullPath n2 = fwp" using n1 by (auto split: if_splits)
    have "placed ns n2" using n2 under_new by (simp add: placed_def)
    moreover have "\<forall>c' \<in> set (children node). placed ns c'"
      using Cons.prems(1) by (simp add: positionInvariant_children)
    ultimately show ?thesis
      using None v w by (simp add: positionInvariant_setChildren)
  next
    case (Some t)
    obtain before c after where t: "t = (before, c, after)" by (cases t) auto
    have ch: "children node = before @ c # after" and nm: "fileName c = nm"
      using Some t by (auto dest: extract_SomeE)
    obtain c1 fs1 where v: "visitExisting env z c fs = (c1, fs1)" by force
    obtain ic where c1: "c1 = setIcon ic c"
      using fst_visitExisting[of env z c fs] v by auto
    obtain c2 fs2 where w: "walk env z lbl fwp names c1 fs1 = (c2, fs2)" by force
    have all: "\<forall>c' \<in> set (children node). placed ns c'"
      using Cons.prems(1) by (simp add: positionInvariant_children)
    then have pc: "placed ns c" using ch by simp
    then have "positionInvariant (ns @ [nm]) c1"
      using c1 nm by (simp add: placed_def)
    from Cons.IH[OF this split, of fs1] w
    have c2: "positionInvariant (ns @ [nm]) c2" "fileName c2 = nm"
      "fullPath c2 = (if names = [] then fwp else fullPath c)" using c1 nm by auto
    have "placed ns c2"
      using c2 pc nm under_end by (auto simp: placed_def)
    then show ?thesis
      using Some t v w all ch by (simp add: positionInvariant_setChildren)
  qed
qed

lemma populateEntries_position:
  "positionInvariant [] root \<Longrightarrow> positionInvariant [] (fst (populateEntries env z lbl es root fs))"
proof (induction es arbitrary: root fs)
  case Nil
  then show ?case by simp
next
  case (Cons e es)
  obtain fwp obj where e: "e = (fwp, obj)" by (cases e)
  show ?case
  proof (cases obj)
    case ZDir
    then show ?thesis using Cons e by simp
  next
    case (ZFile b)
    obtain r1 fs1 where w: "walk env z lbl fwp (splitc CHR ''/'' fwp) root fs = (r1, fs1)" by force
    have "positionInvariant [] r1"
      using walk_position[of "[]" root "splitc CHR ''/'' fwp" fwp env z lbl fs] Cons.prems w by simp
    then show ?thesis using Cons.IH e ZFile w by simp
  qed
qed


lemma placed_setIcon [simp]: "placed ns (setIcon ic c) = placed ns c"
  by (simp add: placed_def)

lemma deletedPart_cases:
  "fst (deletedPart env n i arr fs) = arr
   \<or> fst (deletedPart env n i arr fs) = setTagged i (setIcon AsteriskRed) arr
   \<or> fst (deletedPart env n i arr fs) = splice i arr"
  by (auto simp: deletedPart_def Let_def split: option.splits)

lemma set_splice: "set (splice i arr) \<subseteq> set arr"
  unfolding splice_def by (auto dest: in_set_takeD in_set_dropD)

lemma in_setTagged:
  "(j, m) \<in> set (setTagged i f arr) \<Longrightarrow>
     (\<exists>m0. (j, m0) \<in> set arr \<and> m = (if j = i then f m0 else m0))"
  by (auto simp: setTagged_def split: if_splits)

lemma removeDeletedParts_position:
  shows "\<And>ns. positionInvariant ns node \<Longrightarrow>
           positionInvariant ns (fst (removeDeletedParts env z node fs))
           \<and> fileName (fst (removeDeletedParts env z node fs)) = fileName node
           \<and> fullPath (fst (removeDeletedParts env z node fs)) = fullPath node"
    and "\<And>ns. (\<forall>c \<in> set rem. placed ns c) \<Longrightarrow>
           (\<forall>(j, m) \<in> set arr. placed ns m \<and> (i \<le> j \<longrightarrow> j < i + length rem \<and> m = rem ! (j - i))) \<Longrightarrow>
           (\<forall>(j, m) \<in> set (fst (forEachChild env z rem i arr fs)). placed ns m)"
    and "\<And>ns. (\<forall>c \<in> set cs. placed ns c) \<Longrightarrow>
           (\<forall>c \<in> set (fst (forEachGrandchild env z cs fs)). placed ns c)"
proof (induction env z node fs and env z rem i arr fs and env z cs fs
    rule: removeDeletedParts_forEachChild_forEachGrandchild.induct)
  case (1 env z nm fp ic cs fs)
  obtain arr fs1 where r: "forEachChild env z cs 0 (enumerate 0 cs) fs = (arr, fs1)" by force
  have a: "\<forall>c \<in> set cs. placed ns c" using "1.prems" by (simp add: placed_def list_all_iff)
  have b: "\<forall>(j, m) \<in> set (enumerate 0 cs). placed ns m \<and> (0 \<le> j \<longrightarrow> j < 0 + length cs \<and> m = cs ! (j - 0))"
    using a by (auto simp: in_set_enumerate_eq)
  from "1.IH"[OF a b] r have "\<forall>(j, m) \<in> set arr. placed ns m" by simp
  then show ?case using r by (auto simp: placed_def list_all_iff)
next
  case (2 env z i arr fs)
  then show ?case by auto
next
  case (3 env z nm fp ic cs rest i arr fs)
  let ?n = "FileNode nm fp ic cs"
  have rest: "\<forall>c \<in> set rest. placed ns c" and n: "placed ns ?n" using "3.prems"(1) by auto
  have keep: "\<And>arr1. (\<forall>(j, m) \<in> set arr1. placed ns m \<and> (i \<le> j \<longrightarrow> (\<exists>m0. (j, m0) \<in> set arr \<and> (j \<noteq> i \<longrightarrow> m = m0)))) \<Longrightarrow>
      (\<forall>(j, m) \<in> set arr1. placed ns m \<and> (Suc i \<le> j \<longrightarrow> j < Suc i + length rest \<and> m = rest ! (j - Suc i)))"
  proof -
    fix arr1
    assume h: "\<forall>(j, m) \<in> set arr1. placed ns m \<and> (i \<le> j \<longrightarrow> (\<exists>m0. (j, m0) \<in> set arr \<and> (j \<noteq> i \<longrightarrow> m = m0)))"
    show "\<forall>(j, m) \<in> set arr1. placed ns m \<and> (Suc i \<le> j \<longrightarrow> j < Suc i + length rest \<and> m = rest ! (j - Suc i))"
    proof clarify
      fix j m assume jm: "(j, m) \<in> set arr1"
      then have pm: "placed ns m" using h by auto
      have "Suc i \<le> j \<Longrightarrow> j < Suc i + length rest \<and> m = rest ! (j - Suc i)"
      proof -
        assume le: "Suc i \<le> j"
        then obtain m0 where m0: "(j, m0) \<in> set arr" "m = m0" using h jm by fastforce
        then have "j < i + length (?n # rest) \<and> m0 = (?n # rest) ! (j - i)"
          using "3.prems"(2) le by fastforce
        then show ?thesis using m0 le by (auto simp: Suc_diff_le)
      qed
      then show "placed ns m \<and> (Suc i \<le> j \<longrightarrow> j < Suc i + length rest \<and> m = rest ! (j - Suc i))"
        using pm by simp
    qed
  qed
  have arr: "\<forall>(j, m) \<in> set arr. placed ns m" using "3.prems"(2) by auto
  show ?case
  proof (cases "fp \<notin> set (map fst z)")
    case True
    obtain arr1 fs1 where d: "deletedPart env ?n i arr fs = (arr1, fs1)" by force
    have "\<forall>(j, m) \<in> set arr1. placed ns m \<and> (i \<le> j \<longrightarrow> (\<exists>m0. (j, m0) \<in> set arr \<and> (j \<noteq> i \<longrightarrow> m = m0)))"
      using deletedPart_cases[of env ?n i arr fs] d arr set_splice[of i arr]
      by (auto dest!: in_setTagged split: if_splits)
    from "3.IH"(1)[OF True d[symmetric] rest keep[OF this]]
    show ?thesis using True d by simp
  next
    case False
    show ?thesis
    proof (cases "cs \<noteq> []")
      case True
      obtain cs1 fs1 where g: "forEachGrandchild env z cs fs = (cs1, fs1)" by force
      have "\<forall>c \<in> set cs. placed (ns @ [nm]) c"
        using n by (simp add: placed_def list_all_iff)
      from "3.IH"(2)[OF False True this] g
      have cs1: "\<forall>c \<in> set cs1. placed (ns @ [nm]) c" by simp
      have tagged: "\<And>m0. (i, m0) \<in> set arr \<Longrightarrow> m0 = ?n"
        using "3.prems"(2) by fastforce
      have "\<forall>(j, m) \<in> set (setTagged i (setChildren cs1) arr).
               placed ns m \<and> (i \<le> j \<longrightarrow> (\<exists>m0. (j, m0) \<in> set arr \<and> (j \<noteq> i \<longrightarrow> m = m0)))"
      proof clarify
        fix j m assume "(j, m) \<in> set (setTagged i (setChildren cs1) arr)"
        then obtain m0 where m0: "(j, m0) \<in> set arr" "m = (if j = i then setChildren cs1 m0 else m0)"
          by (auto dest!: in_setTagged)
        have "placed ns m"
        proof (cases "j = i")
          case True
          then have "m0 = ?n" using tagged m0 by simp
          then show ?thesis using m0 True n cs1 by (simp add: placed_def list_all_iff)
        next
          case False
          then show ?thesis using m0 arr by auto
        qed
        then show "placed ns m \<and> (i \<le> j \<longrightarrow> (\<exists>m0. (j, m0) \<in> set arr \<and> (j \<noteq> i \<longrightarrow> m = m0)))"
          using m0 by auto
      qed
      from "3.IH"(3)[OF False True g[symmetric] rest keep[OF this]]
      show ?thesis using False True g by simp
    next
      case nil: False
      have "\<forall>(j, m) \<in> set arr. placed ns m \<and> (i \<le> j \<longrightarrow> (\<exists>m0. (j, m0) \<in> set arr \<and> (j \<noteq> i \<longrightarrow> m = m0)))"
        using arr by auto
      from "3.IH"(4)[OF False nil rest keep[OF this]]
      show ?thesis using False nil by simp
    qed
  qed
next
  case (4 env z fs)
  then show ?case by simp
next
  case (5 env z nn nns fs)
  obtain nn1 fs1 where r: "removeDeletedParts env z nn fs = (nn1, fs1)" by force
  obtain nns1 fs2 where g: "forEachGrandchild env z nns fs1 = (nns1, fs2)" by force
  have pn: "placed ns nn" and rest: "\<forall>c \<in> set nns. placed ns c" using "5.prems" by auto
  from "5.IH"(1)[of "ns @ [fileName nn]"] pn r
  have "placed ns nn1" by (simp add: placed_def)
  moreover from "5.IH"(2)[OF r[symmetric] rest] g
  have "\<forall>c \<in> set nns1. placed ns c" by simp
  ultimately show ?case using r g by simp
qed

text \<open>
  C9, amended. The fresh root satisfies, and every pass keeps, this relation: for every
  node below the root, the names on the way from the root to the node are the first
  segments of the node's \<^verbatim>\<open>fullPath\<close>. (A node made for a folder has the whole path of
  the entry that made it, and so has the leaf below it; \<^verbatim>\<open>fullPath\<close> is not the parent's
  \<^verbatim>\<open>fullPath\<close> with the name added.)
\<close>

theorem pass_keeps_position_invariant:
  "positionInvariant [] newFileNode
   \<and> (positionInvariant [] root \<longrightarrow>
        positionInvariant [] (fst (populateOOXMLViewer env z lbl root fs)))"
proof -
  have "positionInvariant [] (fst (populateOOXMLViewer env z lbl root fs))"
    if inv: "positionInvariant [] root"
  proof -
    obtain r1 fs1 where p: "populateEntries env z lbl z root fs = (r1, fs1)" by force
    have r1: "positionInvariant [] r1"
      using populateEntries_position[OF inv, of env z lbl z fs] p by simp
    then have "positionInvariant [] (fst (removeDeletedParts env z r1 fs1))"
      using removeDeletedParts_position(1)[of "[]" r1 env z fs1] by simp
    then show ?thesis using p r1 by (simp add: populateOOXMLViewer_def)
  qed
  then show ?thesis by (simp add: newFileNode_def)
qed

theorem pass_keeps_position_invariant_witness:
  "positionInvariant [] (rootFileNode (opened plainEnv docZip))
   \<and> positionInvariant []
       (fst (populateOOXMLViewer plainEnv docZipLess True (rootFileNode (opened plainEnv docZip))
               (files (opened plainEnv docZip))))"
proof -
  have h: "positionInvariant [] (rootFileNode (opened plainEnv docZip))" by code_simp
  show ?thesis
    using h pass_keeps_position_invariant[of "rootFileNode (opened plainEnv docZip)" plainEnv
        docZipLess True "files (opened plainEnv docZip)"]
    by simp
qed


section \<open>The generation files of a part\<close>


















section \<open>A pass on a cache in step with the container\<close>




lemma sel_strip [simp]:
  "fileName (strip c) = fileName c" "fullPath (strip c) = fullPath c"
  "children (strip c) = map strip (children c)"
  by (cases c; simp)+

lemma strip_setIcon [simp]: "strip (setIcon ic c) = strip c"
  by (cases c) simp



lemma nodeInSync_strip [simp]: "nodeInSync env z fs (strip c) = nodeInSync env z fs c"
  by (simp add: nodeInSync_def)








lemma treeInSync_setIcon [simp]: "treeInSync env z fs (setIcon ic c) = treeInSync env z fs c"
  by (cases c) simp

lemma hasEntryNode_setIcon [simp]: "hasEntryNode e names (setIcon ic c) = hasEntryNode e names c"
  by (cases names) simp_all








section \<open>A part that the pass finds unchanged, or new\<close>






lemma settles_refl [simp]: "settles env e m fs fs"
  by (simp add: settles_def)



lemma nodesApart_setIcon [simp]: "nodesApart env e (setIcon ic c) = nodesApart env e c"
  by (cases c) simp

lemma nodesApart_setFullPath [simp]: "nodesApart env e (setFullPath fp c) = nodesApart env e c"
  by (cases c) simp



lemma allPresent_setIcon [simp]: "allPresent z (setIcon ic c) = allPresent z c"
  by (cases c) simp

lemma allPresent_setFullPath [simp]: "allPresent z (setFullPath fp c) = allPresent z c"
  by (cases c) simp

















lemma hasNodeAt_setIcon [simp]: "hasNodeAt ns (setIcon ic c) = hasNodeAt ns c"
  by (cases ns) simp_all

lemma hasNodeAt_setFullPath [simp]: "hasNodeAt ns (setFullPath fp c) = hasNodeAt ns c"
  by (cases ns) simp_all




lemma hasEntryNode_setFullPath_Cons [simp]:
  "hasEntryNode e (n # ns) (setFullPath fp c) = hasEntryNode e (n # ns) c"
  by simp






















end
